theory Spec2Isabelle
  imports Main "HOL-Library.Word" "HOL-Library.Sublist"
begin

section \<open>Values of the Python program\<close>

text \<open>
  The program \<^verbatim>\<open>pdf_stego.py\<close> works on two kinds of sequences: \<^verbatim>\<open>bytes\<close>
  (file contents, markers, the packed header) and \<^verbatim>\<open>str\<close> (paths and file names).
  A byte is an 8-bit word; a \<^verbatim>\<open>str\<close> is the list of its Unicode code points.
\<close>

type_synonym byte = "8 word"
type_synonym bytes = "byte list"
type_synonym ustr = "nat list"

definition ascii :: "string \<Rightarrow> ustr" where
  "ascii s = map of_char s"

definition ascii_bytes :: "string \<Rightarrow> bytes" where
  "ascii_bytes s = map (\<lambda>c. of_nat (of_char c)) s"

text \<open>
  Every \<^verbatim>\<open>raise\<close> of the source and every exception of a library call it makes
  is a value of this type. \<open>StructError\<close> is \<^verbatim>\<open>struct.error\<close>, \<open>UnicodeError\<close>
  is what \<^verbatim>\<open>encode\<close> and \<^verbatim>\<open>decode\<close> raise, \<open>IoError\<close> an \<^verbatim>\<open>OSError\<close> other
  than the missing file.
\<close>

datatype error =
    NotFound
  | InvalidFormat
  | UnsupportedFormat
  | InvalidPdf
  | NoHiddenData
  | DataCorruption
  | IoError
  | StructError
  | UnicodeError

definition bind_err :: "error + 'a \<Rightarrow> ('a \<Rightarrow> error + 'b) \<Rightarrow> error + 'b" where
  "bind_err m f = (case m of Inl e \<Rightarrow> Inl e | Inr x \<Rightarrow> f x)"

subsection \<open>Searching and slicing\<close>

text \<open>
  \<^verbatim>\<open>s.find(m)\<close> is the least index at which \<open>m\<close> occurs in \<open>s\<close>, \<^verbatim>\<open>s.rfind(m)\<close>
  the greatest; Python's \<open>-1\<close> is \<open>None\<close> here. \<^verbatim>\<open>m in s\<close> is \<open>py_in s m\<close>.
\<close>

primrec py_find :: "'a list \<Rightarrow> 'a list \<Rightarrow> nat option" where
  "py_find [] m = (if m = [] then Some 0 else None)"
| "py_find (x # xs) m = (if prefix m (x # xs) then Some 0 else map_option Suc (py_find xs m))"

primrec py_rfind :: "'a list \<Rightarrow> 'a list \<Rightarrow> nat option" where
  "py_rfind [] m = (if m = [] then Some 0 else None)"
| "py_rfind (x # xs) m =
     (case py_rfind xs m of
        Some i \<Rightarrow> Some (Suc i)
      | None \<Rightarrow> if prefix m (x # xs) then Some 0 else None)"

primrec py_in :: "'a list \<Rightarrow> 'a list \<Rightarrow> bool" where
  "py_in [] m = (m = [])"
| "py_in (x # xs) m = (prefix m (x # xs) \<or> py_in xs m)"

text \<open>\<^verbatim>\<open>s[a:b]\<close> for indices that are not negative, as all of the source's are.\<close>

definition py_slice :: "nat \<Rightarrow> nat \<Rightarrow> 'a list \<Rightarrow> 'a list" where
  "py_slice a b xs = drop a (take b xs)"

subsection \<open>\<^verbatim>\<open>struct.pack('<I', n)\<close> and \<^verbatim>\<open>struct.unpack('<I', bs)[0]\<close>\<close>

definition pack_u32 :: "nat \<Rightarrow> error + bytes" where
  "pack_u32 n =
     (if n < 4294967296
      then Inr [of_nat n, of_nat (n div 256), of_nat (n div 65536), of_nat (n div 16777216)]
      else Inl StructError)"

fun unpack_u32 :: "bytes \<Rightarrow> error + nat" where
  "unpack_u32 [b0, b1, b2, b3] =
     Inr (unat b0 + 256 * unat b1 + 65536 * unat b2 + 16777216 * unat b3)"
| "unpack_u32 bs = Inl StructError"

subsection \<open>UTF-8\<close>

text \<open>
  \<^verbatim>\<open>str.encode('utf-8')\<close> is strict: a surrogate code point raises. A number from
  \<open>0x110000\<close> on is no character of a \<^verbatim>\<open>str\<close> at all; the encoder refuses it too.
\<close>

definition utf8_encode_cp :: "nat \<Rightarrow> bytes option" where
  "utf8_encode_cp c =
     (if c < 0x80 then Some [of_nat c]
      else if c < 0x800 then Some [of_nat (0xC0 + c div 64), of_nat (0x80 + c mod 64)]
      else if c < 0x10000 then
        (if 0xD800 \<le> c \<and> c < 0xE000 then None
         else Some [of_nat (0xE0 + c div 4096), of_nat (0x80 + c div 64 mod 64),
                    of_nat (0x80 + c mod 64)])
      else if c < 0x110000 then
        Some [of_nat (0xF0 + c div 262144), of_nat (0x80 + c div 4096 mod 64),
              of_nat (0x80 + c div 64 mod 64), of_nat (0x80 + c mod 64)]
      else None)"

primrec utf8_encode :: "ustr \<Rightarrow> error + bytes" where
  "utf8_encode [] = Inr []"
| "utf8_encode (c # cs) =
     (case utf8_encode_cp c of
        None \<Rightarrow> Inl UnicodeError
      | Some bs \<Rightarrow> bind_err (utf8_encode cs) (\<lambda>rest. Inr (bs @ rest)))"

text \<open>
  \<^verbatim>\<open>bytes.decode('utf-8')\<close> is strict as well: it accepts exactly the byte strings
  that are the encoding of some \<^verbatim>\<open>str\<close>. The decoder reads the length of a sequence
  off its first byte, assembles the code point from the payload bits and accepts the
  sequence when it is the encoding of that code point, which rules out stray and
  missing continuation bytes, overlong forms, surrogates and values beyond
  \<open>0x10FFFF\<close>.
\<close>

definition accept_cp :: "nat \<Rightarrow> bytes \<Rightarrow> bool" where
  "accept_cp c bs = (utf8_encode_cp c = Some bs)"

fun utf8_decode :: "bytes \<Rightarrow> error + ustr" where
  "utf8_decode [] = Inr []"
| "utf8_decode (b0 # bs) =
     (if b0 < 0x80 then
        bind_err (utf8_decode bs) (\<lambda>rest. Inr (unat b0 # rest))
      else if 0xC0 \<le> b0 \<and> b0 < 0xE0 then
        (case bs of
           b1 # r \<Rightarrow>
             (let c = (unat b0 mod 32) * 64 + unat b1 mod 64
              in if accept_cp c [b0, b1]
                 then bind_err (utf8_decode r) (\<lambda>rest. Inr (c # rest))
                 else Inl UnicodeError)
         | _ \<Rightarrow> Inl UnicodeError)
      else if 0xE0 \<le> b0 \<and> b0 < 0xF0 then
        (case bs of
           b1 # b2 # r \<Rightarrow>
             (let c = (unat b0 mod 16) * 4096 + (unat b1 mod 64) * 64 + unat b2 mod 64
              in if accept_cp c [b0, b1, b2]
                 then bind_err (utf8_decode r) (\<lambda>rest. Inr (c # rest))
                 else Inl UnicodeError)
         | _ \<Rightarrow> Inl UnicodeError)
      else if 0xF0 \<le> b0 \<and> b0 < 0xF8 then
        (case bs of
           b1 # b2 # b3 # r \<Rightarrow>
             (let c = (unat b0 mod 8) * 262144 + (unat b1 mod 64) * 4096
                      + (unat b2 mod 64) * 64 + unat b3 mod 64
              in if accept_cp c [b0, b1, b2, b3]
                 then bind_err (utf8_decode r) (\<lambda>rest. Inr (c # rest))
                 else Inl UnicodeError)
         | _ \<Rightarrow> Inl UnicodeError)
      else Inl UnicodeError)"

subsection \<open>Paths and text\<close>

text \<open>
  \<^verbatim>\<open>os.path\<close> on a POSIX system: \<^verbatim>\<open>basename\<close> is what follows the last slash,
  \<^verbatim>\<open>splitext\<close> splits at the last dot of the base name unless only dots precede it
  there, \<^verbatim>\<open>join\<close> puts one slash between its arguments unless the second is absolute
  or the first is empty or ends in a slash.
\<close>

definition sep :: nat where "sep = 47"
definition extsep :: nat where "extsep = 46"

definition after_sep :: "ustr \<Rightarrow> nat" where
  "after_sep p = (case py_rfind p [sep] of None \<Rightarrow> 0 | Some i \<Rightarrow> i + 1)"

definition basename :: "ustr \<Rightarrow> ustr" where
  "basename p = drop (after_sep p) p"

definition splitext :: "ustr \<Rightarrow> ustr \<times> ustr" where
  "splitext p =
     (case py_rfind p [extsep] of
        None \<Rightarrow> (p, [])
      | Some dotIndex \<Rightarrow>
          if after_sep p \<le> dotIndex
             \<and> list_ex (\<lambda>c. c \<noteq> extsep) (py_slice (after_sep p) dotIndex p)
          then (take dotIndex p, drop dotIndex p)
          else (p, []))"

definition join :: "ustr \<Rightarrow> ustr \<Rightarrow> ustr" where
  "join a b =
     (if take 1 b = [sep] then b
      else if a = [] \<or> last a = sep then a @ b
      else a @ [sep] @ b)"

text \<open>
  \<^verbatim>\<open>str.lower()\<close> on the ASCII letters. Outside ASCII the model leaves a code point
  as it is; Python maps it to text that is never one of the allowed extensions
  either, so the membership test of \<open>validate_file_format\<close> agrees.
\<close>

definition lower :: "ustr \<Rightarrow> ustr" where
  "lower s = map (\<lambda>c. if 65 \<le> c \<and> c \<le> 90 then c + 32 else c) s"

text \<open>The decimal digits of a number, as an f-string renders an \<^verbatim>\<open>int\<close>.\<close>

fun str_nat :: "nat \<Rightarrow> ustr" where
  "str_nat n = (if n < 10 then [48 + n] else str_nat (n div 10) @ [48 + n mod 10])"

declare str_nat.simps [simp del]

subsection \<open>The file system\<close>

text \<open>
  The program reads and writes whole files by path. The file system is a finite
  table from paths to contents and a list of directories; paths are compared as
  they are written. A read fails on a missing path and on a directory, a write on
  the empty path and on a directory, \<^verbatim>\<open>makedirs(d, exist_ok=True)\<close> on the empty
  path and on an existing file. Permissions and devices are outside the model.
\<close>

record filesystem =
  files :: "(ustr \<times> bytes) list"
  dirs :: "ustr list"

definition path_exists :: "filesystem \<Rightarrow> ustr \<Rightarrow> bool" where
  "path_exists fs p = (map_of (files fs) p \<noteq> None \<or> p \<in> set (dirs fs))"

definition read_file :: "filesystem \<Rightarrow> ustr \<Rightarrow> error + bytes" where
  "read_file fs p =
     (if p \<in> set (dirs fs) then Inl IoError
      else case map_of (files fs) p of None \<Rightarrow> Inl NotFound | Some d \<Rightarrow> Inr d)"

definition write_file :: "filesystem \<Rightarrow> ustr \<Rightarrow> bytes \<Rightarrow> error + filesystem" where
  "write_file fs p d =
     (if p = [] \<or> p \<in> set (dirs fs) then Inl IoError
      else Inr (fs\<lparr>files := (p, d) # files fs\<rparr>))"

definition makedirs :: "filesystem \<Rightarrow> ustr \<Rightarrow> error + filesystem" where
  "makedirs fs d =
     (if d = [] then Inl NotFound
      else if d \<in> set (dirs fs) then Inr fs
      else if map_of (files fs) d \<noteq> None then Inl IoError
      else Inr (fs\<lparr>dirs := d # dirs fs\<rparr>))"

section \<open>The program\<close>

definition MARKER :: bytes where
  "MARKER = ascii_bytes ''<<HIDDEN_DATA_START>>''"

definition MARKER_END :: bytes where
  "MARKER_END = ascii_bytes ''<<HIDDEN_DATA_END>>''"

definition SUPPORTED_FORMATS :: "ustr list" where
  "SUPPORTED_FORMATS =
     [ascii ''.txt'', ascii ''.jpg'', ascii ''.png'', ascii ''.pdf'', ascii ''.docx'',
      ascii ''.exe'']"

definition pdf_header :: bytes where
  "pdf_header = ascii_bytes ''%PDF-''"

definition eof_marker :: bytes where
  "eof_marker = ascii_bytes ''%%EOF''"

definition newline :: bytes where
  "newline = [10]"

definition validate_pdf :: "filesystem \<Rightarrow> ustr \<Rightarrow> error + bool" where
  "validate_pdf fs pdf_path =
     (if \<not> path_exists fs pdf_path then Inl NotFound
      else bind_err (read_file fs pdf_path) (\<lambda>content.
        let header = take 5 content
        in if header \<noteq> pdf_header then Inl InvalidFormat else Inr True))"

definition validate_file_format :: "ustr \<Rightarrow> error + bool" where
  "validate_file_format file_path =
     (let ext = lower (snd (splitext file_path))
      in if ext \<notin> set SUPPORTED_FORMATS then Inl UnsupportedFormat else Inr True)"

text \<open>
  \<open>hide_file\<close>: the body of the \<^verbatim>\<open>try\<close> block, with the new file system as its
  result, and the method itself, which turns every exception into \<open>False\<close>.
\<close>

definition hide_file_body :: "filesystem \<Rightarrow> ustr \<Rightarrow> ustr \<Rightarrow> ustr \<Rightarrow> error + filesystem" where
  "hide_file_body fs pdf_path file_to_hide output_path =
     bind_err (validate_pdf fs pdf_path) (\<lambda>_.
     bind_err (validate_file_format file_to_hide) (\<lambda>_.
     if \<not> path_exists fs file_to_hide then Inl NotFound
     else
     bind_err (read_file fs pdf_path) (\<lambda>pdf_content.
     bind_err (read_file fs file_to_hide) (\<lambda>hidden_data.
     let original_filename = basename file_to_hide in
     bind_err (utf8_encode original_filename) (\<lambda>filename_bytes.
     let filename_length = length filename_bytes;
         data_length = length hidden_data in
     bind_err (pack_u32 filename_length) (\<lambda>packed_filename_length.
     bind_err (pack_u32 data_length) (\<lambda>packed_data_length.
     let hidden_package =
           packed_filename_length @ filename_bytes @ packed_data_length @ hidden_data in
     case py_rfind pdf_content eof_marker of
       None \<Rightarrow> Inl InvalidPdf
     | Some eof_position \<Rightarrow>
         let modified_pdf =
               take (eof_position + length eof_marker) pdf_content
               @ newline @ MARKER @ hidden_package @ MARKER_END @ newline
         in write_file fs output_path modified_pdf)))))))"

definition hide_file :: "filesystem \<Rightarrow> ustr \<Rightarrow> ustr \<Rightarrow> ustr \<Rightarrow> bool \<times> filesystem" where
  "hide_file fs pdf_path file_to_hide output_path =
     (case hide_file_body fs pdf_path file_to_hide output_path of
        Inl e \<Rightarrow> (False, fs)
      | Inr fs' \<Rightarrow> (True, fs'))"

text \<open>
  The loop of \<open>extract_file\<close> that looks for a path not in use:
  \<^verbatim>\<open>while os.path.exists(output_path): output_path = ...; counter += 1\<close>.
  \<open>numbered_path\<close> is the path it tries for a value of the counter.
\<close>

definition numbered_path :: "ustr \<Rightarrow> ustr \<Rightarrow> ustr \<Rightarrow> nat \<Rightarrow> ustr" where
  "numbered_path output_dir base_name ext counter =
     join output_dir (base_name @ ascii ''_'' @ str_nat counter @ ext)"

lemma str_nat_value: "foldl (\<lambda>a d. 10 * a + (d - 48)) 0 (str_nat n) = n"
proof (induction n rule: str_nat.induct)
  case (1 n)
  show ?case
  proof (cases "n < 10")
    case True
    then show ?thesis by (simp add: str_nat.simps [of n])
  next
    case False
    with 1 show ?thesis by (simp add: str_nat.simps [of n])
  qed
qed

lemma str_nat_inj: "str_nat m = str_nat n \<Longrightarrow> m = n"
  by (metis str_nat_value)

lemma numbered_path_inj:
  assumes "numbered_path d b e m = numbered_path d b e n"
  shows "m = n"
proof -
  have first: "take 1 (b @ ascii ''_'' @ str_nat k @ e) = [sep]
      \<longleftrightarrow> take 1 (b @ ascii ''_'') = [sep]" for k
    by (cases b) (simp_all add: ascii_def)
  have "b @ ascii ''_'' @ str_nat m @ e = b @ ascii ''_'' @ str_nat n @ e"
    using assms first [of m] first [of n]
    by (auto simp: numbered_path_def join_def split: if_splits)
  then show ?thesis
    by (simp add: str_nat_inj)
qed

lemma finite_numbered_in_use:
  "finite {k. path_exists fs (numbered_path d b e k)}"
proof -
  have "{k. path_exists fs (numbered_path d b e k)}
      \<subseteq> numbered_path d b e -` (fst ` set (files fs) \<union> set (dirs fs))"
    by (auto simp: path_exists_def map_of_eq_None_iff)
  moreover have "finite (numbered_path d b e -` (fst ` set (files fs) \<union> set (dirs fs)))"
    by (rule finite_vimageI) (auto intro: injI numbered_path_inj)
  ultimately show ?thesis
    by (rule finite_subset)
qed

function free_path :: "filesystem \<Rightarrow> ustr \<Rightarrow> ustr \<Rightarrow> ustr \<Rightarrow> ustr \<Rightarrow> nat \<Rightarrow> ustr" where
  "free_path fs output_dir base_name ext output_path counter =
     (if path_exists fs output_path
      then free_path fs output_dir base_name ext
             (numbered_path output_dir base_name ext counter) (counter + 1)
      else output_path)"
  by pat_completeness auto
termination
proof (relation "measure (\<lambda>(fs, d, b, e, p, c).
          2 * card {k. c \<le> k \<and> path_exists fs (numbered_path d b e k)}
          + (if path_exists fs p then 1 else 0))")
  show "wf (measure (\<lambda>(fs, d, b, e, p, c).
          2 * card {k. c \<le> k \<and> path_exists fs (numbered_path d b e k)}
          + (if path_exists fs p then 1 else 0)))"
    by simp
next
  fix fs :: filesystem and d b e p :: ustr and c :: nat
  assume "path_exists fs p"
  let ?S = "\<lambda>c. {k. c \<le> k \<and> path_exists fs (numbered_path d b e k)}"
  have fin: "finite (?S c)"
    by (rule finite_subset [OF _ finite_numbered_in_use [of fs d b e]]) auto
  show "((fs, d, b, e, numbered_path d b e c, c + 1), (fs, d, b, e, p, c))
      \<in> measure (\<lambda>(fs, d, b, e, p, c).
          2 * card {k. c \<le> k \<and> path_exists fs (numbered_path d b e k)}
          + (if path_exists fs p then 1 else 0))"
  proof (cases "path_exists fs (numbered_path d b e c)")
    case True
    then have "?S c = insert c (?S (c + 1))"
      by (auto simp: Suc_le_eq le_less)
    moreover have "c \<notin> ?S (c + 1)"
      by simp
    moreover have "finite (?S (c + 1))"
      by (rule finite_subset [OF _ fin]) auto
    ultimately have "card (?S c) = Suc (card (?S (c + 1)))"
      by (metis card_insert_disjoint)
    with \<open>path_exists fs p\<close> True show ?thesis
      by simp
  next
    case False
    then have "?S (c + 1) = ?S c"
      by (auto simp: Suc_le_eq le_less)
    with \<open>path_exists fs p\<close> False show ?thesis
      by simp
  qed
qed

declare free_path.simps [simp del]

text \<open>\<open>extract_file\<close>: the body of the \<^verbatim>\<open>try\<close> block and the method.\<close>

definition extract_file_body :: "filesystem \<Rightarrow> ustr \<Rightarrow> ustr \<Rightarrow> error + ustr \<times> filesystem" where
  "extract_file_body fs pdf_path output_dir =
     bind_err (validate_pdf fs pdf_path) (\<lambda>_.
     bind_err (read_file fs pdf_path) (\<lambda>pdf_content.
     case (py_find pdf_content MARKER, py_find pdf_content MARKER_END) of
       (Some start, Some end_pos) \<Rightarrow>
         let start_pos = start + length MARKER;
             hidden_package = py_slice start_pos end_pos pdf_content in
         bind_err (unpack_u32 (py_slice 0 4 hidden_package)) (\<lambda>filename_length.
         bind_err (utf8_decode (py_slice 4 (4 + filename_length) hidden_package)) (\<lambda>filename.
         let data_length_pos = 4 + filename_length in
         bind_err (unpack_u32 (py_slice data_length_pos (data_length_pos + 4) hidden_package))
           (\<lambda>data_length.
         let data_start_pos = data_length_pos + 4;
             hidden_data = py_slice data_start_pos (data_start_pos + data_length) hidden_package
         in
         if length hidden_data \<noteq> data_length then Inl DataCorruption
         else
         bind_err (makedirs fs output_dir) (\<lambda>fs1.
         let (base_name, ext) = splitext filename;
             output_path = free_path fs1 output_dir base_name ext (join output_dir filename) 1
         in
         bind_err (write_file fs1 output_path hidden_data) (\<lambda>fs2.
         Inr (output_path, fs2))))))
     | _ \<Rightarrow> Inl NoHiddenData))"

definition extract_file :: "filesystem \<Rightarrow> ustr \<Rightarrow> ustr \<Rightarrow> ustr option \<times> filesystem" where
  "extract_file fs pdf_path output_dir =
     (case extract_file_body fs pdf_path output_dir of
        Inl e \<Rightarrow> (None, fs)
      | Inr (output_path, fs') \<Rightarrow> (Some output_path, fs'))"

text \<open>\<open>check_hidden_data\<close> and \<open>get_hidden_file_info\<close>, which only read.\<close>

definition check_hidden_data_body :: "filesystem \<Rightarrow> ustr \<Rightarrow> error + bool" where
  "check_hidden_data_body fs pdf_path =
     bind_err (validate_pdf fs pdf_path) (\<lambda>_.
     bind_err (read_file fs pdf_path) (\<lambda>pdf_content.
     Inr (py_in pdf_content MARKER \<and> py_in pdf_content MARKER_END)))"

definition check_hidden_data :: "filesystem \<Rightarrow> ustr \<Rightarrow> bool" where
  "check_hidden_data fs pdf_path =
     (case check_hidden_data_body fs pdf_path of Inl e \<Rightarrow> False | Inr r \<Rightarrow> r)"

definition get_hidden_file_info_body :: "filesystem \<Rightarrow> ustr \<Rightarrow> error + (ustr \<times> nat) option" where
  "get_hidden_file_info_body fs pdf_path =
     bind_err (validate_pdf fs pdf_path) (\<lambda>_.
     bind_err (read_file fs pdf_path) (\<lambda>pdf_content.
     case (py_find pdf_content MARKER, py_find pdf_content MARKER_END) of
       (Some start, Some end_pos) \<Rightarrow>
         let start_pos = start + length MARKER;
             hidden_package = py_slice start_pos end_pos pdf_content in
         bind_err (unpack_u32 (py_slice 0 4 hidden_package)) (\<lambda>filename_length.
         bind_err (utf8_decode (py_slice 4 (4 + filename_length) hidden_package)) (\<lambda>filename.
         let data_length_pos = 4 + filename_length in
         bind_err (unpack_u32 (py_slice data_length_pos (data_length_pos + 4) hidden_package))
           (\<lambda>data_length.
         Inr (Some (filename, data_length)))))
     | _ \<Rightarrow> Inr None))"

definition get_hidden_file_info :: "filesystem \<Rightarrow> ustr \<Rightarrow> (ustr \<times> nat) option" where
  "get_hidden_file_info fs pdf_path =
     (case get_hidden_file_info_body fs pdf_path of Inl e \<Rightarrow> None | Inr r \<Rightarrow> r)"

section \<open>Facts about the library functions\<close>

lemma unat_byte: "n < 256 \<Longrightarrow> unat (of_nat n :: byte) = n"
  by (simp add: unat_of_nat)

lemma unat_byte_mod: "unat (of_nat n :: byte) = n mod 256"
  by (simp add: unat_of_nat)

lemma le32_sum:
  assumes "n < 4294967296"
  shows "n mod 256 + 256 * (n div 256 mod 256) + 65536 * (n div 65536 mod 256)
     + 16777216 * (n div 16777216 mod 256) = (n::nat)"
proof -
  define q1 q2 q3 where "q1 = n div 256" and "q2 = q1 div 256" and "q3 = q2 div 256"
  have e2: "n div 65536 = q2"
    unfolding q1_def q2_def by (simp add: div_mult2_eq [symmetric])
  have e3: "n div 16777216 = q3"
    unfolding q1_def q2_def q3_def by (simp add: div_mult2_eq [symmetric])
  have "q3 < 256"
    using assms unfolding e3 [symmetric] by (simp add: less_mult_imp_div_less)
  then have a: "q3 mod 256 = q3" by simp
  have b: "q2 = q3 * 256 + q2 mod 256" unfolding q3_def by simp
  have c: "q1 = q2 * 256 + q1 mod 256" unfolding q2_def by simp
  have d: "n = q1 * 256 + n mod 256" unfolding q1_def by simp
  show ?thesis
    unfolding e2 e3 q1_def [symmetric] a using b c d by linarith
qed

lemma unpack_pack_u32:
  assumes "pack_u32 n = Inr bs"
  shows "unpack_u32 bs = Inr n"
proof -
  from assms have n: "n < 4294967296"
    and bs: "bs = [of_nat n, of_nat (n div 256), of_nat (n div 65536), of_nat (n div 16777216)]"
    by (auto simp: pack_u32_def split: if_splits)
  show ?thesis
    unfolding bs by (simp only: unpack_u32.simps unat_byte_mod le32_sum [OF n])
qed


lemma bind_err_Inl [simp]: "bind_err (Inl e) f = Inl e"
  by (simp add: bind_err_def)

lemma bind_err_Inr [simp]: "bind_err (Inr x) f = f x"
  by (simp add: bind_err_def)

lemma byte_less: "(a::byte) < b \<longleftrightarrow> unat a < unat b"
  by (rule word_less_nat_alt)

lemma byte_le: "(a::byte) \<le> b \<longleftrightarrow> unat a \<le> unat b"
  by (rule word_le_nat_alt)

lemma lead_mod: "q < m \<Longrightarrow> (k * m + q) mod m = (q::nat)"
  by simp

lemma cont_mod: "(128 + r mod 64) mod 64 = (r::nat) mod 64"
  using lead_mod [of "r mod 64" 64 2] by simp

lemma cp2: "c < 2048 \<Longrightarrow> ((192 + c div 64) mod 32) * 64 + (128 + c mod 64) mod 64 = (c::nat)"
proof -
  assume "c < 2048"
  then have "c div 64 < 32" by (simp add: less_mult_imp_div_less)
  then have "(192 + c div 64) mod 32 = c div 64"
    using lead_mod [of "c div 64" 32 6] by simp
  then show ?thesis by (simp add: cont_mod)
qed

lemma cp3:
  "c < 65536 \<Longrightarrow>
   ((224 + c div 4096) mod 16) * 4096 + ((128 + c div 64 mod 64) mod 64) * 64
     + (128 + c mod 64) mod 64 = (c::nat)"
proof -
  assume "c < 65536"
  then have "c div 4096 < 16" by (simp add: less_mult_imp_div_less)
  then have l: "(224 + c div 4096) mod 16 = c div 4096"
    using lead_mod [of "c div 4096" 16 14] by simp
  have e: "c div 4096 = c div 64 div 64"
    by (simp add: div_mult2_eq [symmetric])
  have "c div 64 = (c div 64 div 64) * 64 + c div 64 mod 64" by simp
  moreover have "c = (c div 64) * 64 + c mod 64" by simp
  ultimately have "c = (c div 4096) * 4096 + (c div 64 mod 64) * 64 + c mod 64"
    unfolding e by linarith
  then show ?thesis by (simp only: cont_mod l)
qed

lemma cp4:
  "c < 1114112 \<Longrightarrow>
   ((240 + c div 262144) mod 8) * 262144 + ((128 + c div 4096 mod 64) mod 64) * 4096
     + ((128 + c div 64 mod 64) mod 64) * 64 + (128 + c mod 64) mod 64 = (c::nat)"
proof -
  assume "c < 1114112"
  then have "c div 262144 < 8" by (simp add: less_mult_imp_div_less)
  then have l: "(240 + c div 262144) mod 8 = c div 262144"
    using lead_mod [of "c div 262144" 8 30] by simp
  have e1: "c div 4096 = c div 64 div 64"
    by (simp add: div_mult2_eq [symmetric])
  have e2: "c div 262144 = c div 64 div 64 div 64"
    by (simp add: div_mult2_eq [symmetric])
  have "c div 64 div 64 = (c div 64 div 64 div 64) * 64 + c div 64 div 64 mod 64" by simp
  moreover have "c div 64 = (c div 64 div 64) * 64 + c div 64 mod 64" by simp
  moreover have "c = (c div 64) * 64 + c mod 64" by simp
  ultimately have "c = (c div 262144) * 262144 + (c div 4096 mod 64) * 4096
      + (c div 64 mod 64) * 64 + c mod 64"
    unfolding e1 e2 by linarith
  then show ?thesis by (simp only: cont_mod l)
qed


lemma decode_encode_cp:
  assumes "utf8_encode_cp c = Some cb"
  shows "utf8_decode (cb @ rest) = bind_err (utf8_decode rest) (\<lambda>r. Inr (c # r))"
proof -
  consider (one) "c < 128" | (two) "128 \<le> c" "c < 2048"
    | (three) "2048 \<le> c" "c < 65536"
    | (four) "65536 \<le> c" "c < 1114112"
    using assms by (auto simp: utf8_encode_cp_def split: if_splits)
  then show ?thesis
  proof cases
    case one
    then have cb: "cb = [of_nat c]" using assms by (simp add: utf8_encode_cp_def)
    from one have "unat (of_nat c :: byte) = c" by (simp add: unat_byte)
    with one cb show ?thesis by (simp add: byte_less)
  next
    case two
    define b0 :: byte where "b0 = of_nat (192 + c div 64)"
    define b1 :: byte where "b1 = of_nat (128 + c mod 64)"
    from two have cb: "cb = [b0, b1]" using assms by (simp add: utf8_encode_cp_def b0_def b1_def)
    from two have "c div 64 < 32" by (simp add: less_mult_imp_div_less)
    then have u0: "unat b0 = 192 + c div 64" unfolding b0_def by (intro unat_byte) simp
    have u1: "unat b1 = 128 + c mod 64" unfolding b1_def by (intro unat_byte) simp
    have c': "(unat b0 mod 32) * 64 + unat b1 mod 64 = c"
      unfolding u0 u1 by (rule cp2) (rule two)
    have rng: "\<not> b0 < 0x80" "0xC0 \<le> b0" "b0 < 0xE0"
      using \<open>c div 64 < 32\<close> by (simp_all add: byte_less byte_le u0)
    have acc: "accept_cp c [b0, b1]"
      using assms by (simp add: accept_cp_def cb)
    show ?thesis
      unfolding cb by (simp add: rng c' acc del: utf8_encode.simps)
  next
    case three
    define b0 :: byte where "b0 = of_nat (224 + c div 4096)"
    define b1 :: byte where "b1 = of_nat (128 + c div 64 mod 64)"
    define b2 :: byte where "b2 = of_nat (128 + c mod 64)"
    from three have cb: "cb = [b0, b1, b2]"
      using assms by (simp add: utf8_encode_cp_def b0_def b1_def b2_def split: if_splits)
    from three have "c div 4096 < 16" by (simp add: less_mult_imp_div_less)
    then have u0: "unat b0 = 224 + c div 4096" unfolding b0_def by (intro unat_byte) simp
    have u1: "unat b1 = 128 + c div 64 mod 64" unfolding b1_def by (intro unat_byte) simp
    have u2: "unat b2 = 128 + c mod 64" unfolding b2_def by (intro unat_byte) simp
    have c': "(unat b0 mod 16) * 4096 + (unat b1 mod 64) * 64 + unat b2 mod 64 = c"
      unfolding u0 u1 u2 by (rule cp3) (rule three)
    have rng: "\<not> b0 < 0x80" "\<not> (0xC0 \<le> b0 \<and> b0 < 0xE0)" "0xE0 \<le> b0" "b0 < 0xF0"
      using \<open>c div 4096 < 16\<close> by (simp_all add: byte_less byte_le u0)
    have acc: "accept_cp c [b0, b1, b2]"
      using assms by (simp add: accept_cp_def cb)
    show ?thesis
      unfolding cb by (simp add: rng c' acc)
  next
    case four
    define b0 :: byte where "b0 = of_nat (240 + c div 262144)"
    define b1 :: byte where "b1 = of_nat (128 + c div 4096 mod 64)"
    define b2 :: byte where "b2 = of_nat (128 + c div 64 mod 64)"
    define b3 :: byte where "b3 = of_nat (128 + c mod 64)"
    from four have cb: "cb = [b0, b1, b2, b3]"
      using assms by (simp add: utf8_encode_cp_def b0_def b1_def b2_def b3_def)
    from four have "c div 262144 < 8" by (simp add: less_mult_imp_div_less)
    then have u0: "unat b0 = 240 + c div 262144" unfolding b0_def by (intro unat_byte) simp
    have u1: "unat b1 = 128 + c div 4096 mod 64" unfolding b1_def by (intro unat_byte) simp
    have u2: "unat b2 = 128 + c div 64 mod 64" unfolding b2_def by (intro unat_byte) simp
    have u3: "unat b3 = 128 + c mod 64" unfolding b3_def by (intro unat_byte) simp
    have c': "(unat b0 mod 8) * 262144 + (unat b1 mod 64) * 4096
                + (unat b2 mod 64) * 64 + unat b3 mod 64 = c"
      unfolding u0 u1 u2 u3 by (rule cp4) (rule four)
    have rng: "\<not> b0 < 0x80" "\<not> (0xC0 \<le> b0 \<and> b0 < 0xE0)" "\<not> (0xE0 \<le> b0 \<and> b0 < 0xF0)"
        "0xF0 \<le> b0" "b0 < 0xF8"
      using \<open>c div 262144 < 8\<close> by (simp_all add: byte_less byte_le u0)
    have acc: "accept_cp c [b0, b1, b2, b3]"
      using assms by (simp add: accept_cp_def cb)
    show ?thesis
      unfolding cb by (simp add: rng c' acc)
  qed
qed

lemma utf8_decode_encode: "utf8_encode s = Inr bs \<Longrightarrow> utf8_decode bs = Inr s"
proof (induction s arbitrary: bs)
  case Nil
  then show ?case by simp
next
  case (Cons c cs)
  from Cons.prems obtain cb rest where
    cb: "utf8_encode_cp c = Some cb" and rest: "utf8_encode cs = Inr rest" and bs: "bs = cb @ rest"
    by (auto simp: bind_err_def split: option.splits sum.splits)
  from Cons.IH [OF rest] decode_encode_cp [OF cb, of rest] show ?case
    by (simp add: bs)
qed


lemma py_in_find: "py_in xs m \<longleftrightarrow> py_find xs m \<noteq> None"
  by (induction xs) auto

lemma py_in_rfind: "py_in xs m \<longleftrightarrow> py_rfind xs m \<noteq> None"
  by (induction xs) (auto split: option.splits)

lemma py_in_iff: "py_in xs m \<longleftrightarrow> (\<exists>pre post. xs = pre @ m @ post)"
proof (induction xs)
  case Nil
  then show ?case by simp
next
  case (Cons x xs)
  show ?case
  proof
    assume "py_in (x # xs) m"
    then consider "prefix m (x # xs)" | "py_in xs m" by auto
    then show "\<exists>pre post. x # xs = pre @ m @ post"
    proof cases
      case 1
      then obtain post where "x # xs = m @ post" by (auto simp: prefix_def)
      then have "x # xs = [] @ m @ post" by simp
      then show ?thesis by blast
    next
      case 2
      with Cons.IH obtain pre post where "xs = pre @ m @ post" by blast
      then have "x # xs = (x # pre) @ m @ post" by simp
      then show ?thesis by blast
    qed
  next
    assume "\<exists>pre post. x # xs = pre @ m @ post"
    then obtain pre post where eq: "x # xs = pre @ m @ post" by blast
    show "py_in (x # xs) m"
    proof (cases pre)
      case Nil
      with eq have "prefix m (x # xs)" by (simp add: prefix_def)
      then show ?thesis by simp
    next
      case (Cons y pre')
      with eq have "xs = pre' @ m @ post" by simp
      with Cons.IH have "py_in xs m" by blast
      then show ?thesis by simp
    qed
  qed
qed

lemma py_find_Some_iff:
  "py_find xs m = Some i \<longleftrightarrow>
     i \<le> length xs \<and> prefix m (drop i xs) \<and> (\<forall>j<i. \<not> prefix m (drop j xs))"
proof (induction xs arbitrary: i)
  case Nil
  then show ?case by auto
next
  case (Cons x xs)
  show ?case
  proof (cases "prefix m (x # xs)")
    case True
    then show ?thesis
      by (cases i) auto
  next
    case False
    show ?thesis
    proof (cases i)
      case 0
      with False show ?thesis by simp
    next
      case (Suc k)
      have "(\<forall>j<Suc k. \<not> prefix m (drop j (x # xs))) \<longleftrightarrow> (\<forall>j<k. \<not> prefix m (drop j xs))"
        using False by (auto simp: less_Suc_eq_0_disj)
      with False Suc Cons.IH [of k] show ?thesis
        by auto
    qed
  qed
qed

lemma length_MARKER: "length MARKER = 21"
  by (simp add: MARKER_def ascii_bytes_def)

lemma length_MARKER_END: "length MARKER_END = 19"
  by (simp add: MARKER_END_def ascii_bytes_def)

lemma newline_notin_MARKER: "10 \<notin> set MARKER"
  by (simp add: MARKER_def ascii_bytes_def)

lemma newline_notin_MARKER_END: "10 \<notin> set MARKER_END"
  by (simp add: MARKER_END_def ascii_bytes_def)

lemma prefix_before_sep:
  assumes "c \<notin> set m" and "prefix m (a @ c # r)"
  shows "prefix m a"
proof -
  from assms(2) consider "prefix m a" | us where "m = a @ us" "prefix us (c # r)"
    by (auto simp: prefix_append)
  then show ?thesis
  proof cases
    case 1
    then show ?thesis .
  next
    case 2
    with assms(1) have "us = []" by (cases us) auto
    with 2 show ?thesis by simp
  qed
qed

lemma occurrence_py_in: "prefix m (drop j xs) \<Longrightarrow> py_in xs m"
proof -
  assume "prefix m (drop j xs)"
  then obtain post where "drop j xs = m @ post" by (auto simp: prefix_def)
  then have "xs = take j xs @ m @ post" by (metis append_take_drop_id)
  then show ?thesis unfolding py_in_iff by blast
qed

lemma END_not_inside_START:
  assumes "t < 21"
  shows "\<not> prefix MARKER_END (drop t MARKER @ rest)"
proof -
  from assms have "t = 0 \<or> t = 1 \<or> t = 2 \<or> t = 3 \<or> t = 4 \<or> t = 5 \<or> t = 6 \<or> t = 7
      \<or> t = 8 \<or> t = 9 \<or> t = 10 \<or> t = 11 \<or> t = 12 \<or> t = 13 \<or> t = 14 \<or> t = 15
      \<or> t = 16 \<or> t = 17 \<or> t = 18 \<or> t = 19 \<or> t = 20"
    by arith
  then show ?thesis
    by (elim disjE) (simp_all add: MARKER_def MARKER_END_def ascii_bytes_def)
qed

lemma END_no_border:
  assumes "0 < k" and "k < 19"
  shows "\<not> prefix (drop k MARKER_END) MARKER_END"
proof -
  from assms have "k = 1 \<or> k = 2 \<or> k = 3 \<or> k = 4 \<or> k = 5 \<or> k = 6 \<or> k = 7
      \<or> k = 8 \<or> k = 9 \<or> k = 10 \<or> k = 11 \<or> k = 12 \<or> k = 13 \<or> k = 14 \<or> k = 15
      \<or> k = 16 \<or> k = 17 \<or> k = 18"
    by arith
  then show ?thesis
    by (elim disjE) (simp_all add: MARKER_END_def ascii_bytes_def)
qed


subsection \<open>Reading and validating\<close>

lemma bind_err_eq_Inr: "bind_err m f = Inr y \<longleftrightarrow> (\<exists>x. m = Inr x \<and> f x = Inr y)"
  by (cases m) simp_all

lemma read_file_exists: "read_file fs p = Inr c \<Longrightarrow> path_exists fs p"
  by (auto simp: read_file_def path_exists_def split: if_splits option.splits)

lemma validate_pdf_Inr:
  "validate_pdf fs p = Inr b \<longleftrightarrow> b \<and> (\<exists>c. read_file fs p = Inr c \<and> take 5 c = pdf_header)"
  by (cases "read_file fs p")
     (auto simp: validate_pdf_def Let_def dest: read_file_exists
           simp: read_file_def path_exists_def split: if_splits option.splits)

lemma validate_pdf_ok:
  "read_file fs p = Inr c \<Longrightarrow> take 5 c = pdf_header \<Longrightarrow> validate_pdf fs p = Inr True"
  by (simp add: validate_pdf_Inr)

definition reversed_markers_fs :: filesystem where
  "reversed_markers_fs =
     \<lparr>files = [(ascii ''x.pdf'',
                 ascii_bytes ''%PDF-<<HIDDEN_DATA_END>><<HIDDEN_DATA_START>>'')],
      dirs = []\<rparr>"

section \<open>Detection does not promise extraction\<close>

text \<open>
  Claim C9. A carrier that passes the PDF check and holds both markers, the first
  \<^verbatim>\<open><<HIDDEN_DATA_END>>\<close> before the first \<^verbatim>\<open><<HIDDEN_DATA_START>>\<close>: \<open>check_hidden_data\<close>
  answers \<open>True\<close>, while \<open>extract_file\<close> returns \<open>None\<close> and leaves the file system
  as it was. The py_slice between the markers is empty, so reading the name length
  raises.
\<close>

theorem detect_true_extract_fails:
  assumes "validate_pdf fs pdf_path = Inr True"
    and "read_file fs pdf_path = Inr content"
    and "py_find content MARKER = Some s"
    and "py_find content MARKER_END = Some e"
    and "e < s"
  shows "check_hidden_data fs pdf_path \<and> extract_file fs pdf_path output_dir = (None, fs)"
proof -
  from assms(3,4) have "py_in content MARKER" "py_in content MARKER_END"
    by (simp_all add: py_in_find)
  with assms(1,2) have det: "check_hidden_data fs pdf_path"
    by (simp add: check_hidden_data_def check_hidden_data_body_def)
  from assms(5) have "py_slice (s + length MARKER) e content = []"
    by (simp add: py_slice_def)
  with assms(1-4) have "extract_file_body fs pdf_path output_dir = Inl StructError"
    by (simp add: extract_file_body_def py_slice_def)
  then have "extract_file fs pdf_path output_dir = (None, fs)"
    by (simp add: extract_file_def)
  with det show ?thesis by simp
qed

theorem detect_true_extract_fails_witness:
  "check_hidden_data reversed_markers_fs (ascii ''x.pdf'')
   \<and> extract_file reversed_markers_fs (ascii ''x.pdf'') (ascii ''out'')
       = (None, reversed_markers_fs)"
proof -
  let ?c = "ascii_bytes ''%PDF-<<HIDDEN_DATA_END>><<HIDDEN_DATA_START>>''"
  have r: "read_file reversed_markers_fs (ascii ''x.pdf'') = Inr ?c"
    by (simp add: reversed_markers_fs_def read_file_def ascii_def)
  have v: "validate_pdf reversed_markers_fs (ascii ''x.pdf'') = Inr True"
    by (rule validate_pdf_ok [OF r]) (simp add: ascii_bytes_def pdf_header_def)
  have s: "py_find ?c MARKER = Some 24"
    by (simp add: ascii_bytes_def MARKER_def)
  have e: "py_find ?c MARKER_END = Some 5"
    by (simp add: ascii_bytes_def MARKER_END_def)
  show ?thesis
    by (rule detect_true_extract_fails [OF v r s e]) simp
qed

subsection \<open>What a successful \<open>hide_file\<close> has done\<close>

lemma py_rfind_Some:
  "py_rfind xs m = Some i \<Longrightarrow> i + length m \<le> length xs \<and> prefix m (drop i xs)"
proof (induction xs arbitrary: i)
  case Nil
  then show ?case by (simp split: if_splits)
next
  case (Cons x xs)
  show ?case
  proof (cases "py_rfind xs m")
    case None
    with Cons.prems have "prefix m (x # xs)" "i = 0"
      by (simp_all split: if_splits)
    then show ?thesis using prefix_length_le [of m "x # xs"] by simp
  next
    case (Some k)
    with Cons.prems have "i = Suc k" by simp
    with Cons.IH [OF Some] show ?thesis by simp
  qed
qed

lemma length_eof_marker: "length eof_marker = 5"
  by (simp add: eof_marker_def ascii_bytes_def)

lemma length_pdf_header: "length pdf_header = 5"
  by (simp add: pdf_header_def ascii_bytes_def)

lemma validate_file_format_Inr:
  "validate_file_format f = Inr b \<longleftrightarrow> b \<and> lower (snd (splitext f)) \<in> set SUPPORTED_FORMATS"
  by (auto simp: validate_file_format_def Let_def)

lemma hide_file_body_Inr_iff:
  "hide_file_body fs pdf_path file_to_hide output_path = Inr fs' \<longleftrightarrow>
     (\<exists>C P nb nl dl i.
        read_file fs pdf_path = Inr C \<and> take 5 C = pdf_header
        \<and> lower (snd (splitext file_to_hide)) \<in> set SUPPORTED_FORMATS
        \<and> read_file fs file_to_hide = Inr P
        \<and> utf8_encode (basename file_to_hide) = Inr nb
        \<and> pack_u32 (length nb) = Inr nl \<and> pack_u32 (length P) = Inr dl
        \<and> py_rfind C eof_marker = Some i
        \<and> write_file fs output_path
             (take (i + 5) C @ newline @ MARKER @ nl @ nb @ dl @ P @ MARKER_END @ newline)
            = Inr fs')"
  by (auto simp: hide_file_body_def bind_err_eq_Inr validate_pdf_Inr validate_file_format_Inr
        Let_def length_eof_marker
      dest: read_file_exists split: option.splits)

lemma hide_file_True_iff:
  "hide_file fs pdf_path file_to_hide output_path = (True, fs')
     \<longleftrightarrow> hide_file_body fs pdf_path file_to_hide output_path = Inr fs'"
  by (simp add: hide_file_def split: sum.splits)

lemma hide_file_False:
  "(\<And>fs'. hide_file_body fs pdf_path file_to_hide output_path \<noteq> Inr fs')
     \<Longrightarrow> hide_file fs pdf_path file_to_hide output_path = (False, fs)"
  by (simp add: hide_file_def split: sum.splits)

lemma write_file_read:
  "write_file fs p d = Inr fs' \<Longrightarrow> read_file fs' p = Inr d"
  by (auto simp: write_file_def read_file_def split: if_splits)

lemma write_file_Inr:
  "write_file fs p d = Inr fs' \<longleftrightarrow>
     p \<noteq> [] \<and> p \<notin> set (dirs fs) \<and> fs' = fs\<lparr>files := (p, d) # files fs\<rparr>"
  by (auto simp: write_file_def)


subsection \<open>Concrete files for the examples\<close>

lemmas fs_eval = read_file_def path_exists_def write_file_def makedirs_def ascii_def
  ascii_bytes_def

lemmas path_eval = splitext_def after_sep_def basename_def join_def sep_def extsep_def
  py_slice_def lower_def SUPPORTED_FORMATS_def

lemmas marker_eval = MARKER_def MARKER_END_def pdf_header_def eof_marker_def newline_def

definition scenario_carrier :: bytes where
  "scenario_carrier =
     ascii_bytes ''%PDF-1.4'' @ newline @ ascii_bytes ''...body...'' @ newline
     @ ascii_bytes ''%%EOF'' @ newline"

definition scenario_fs :: filesystem where
  "scenario_fs =
     \<lparr>files = [(ascii ''carrier.pdf'', scenario_carrier),
               (ascii ''secret.txt'', ascii_bytes ''hello''),
               (ascii ''plain.pdf'', ascii_bytes ''hello %%EOF''),
               (ascii ''cut.pdf'', ascii_bytes ''%PDF-1.4 body''),
               (ascii ''notes.md'', ascii_bytes ''hi'')],
      dirs = []\<rparr>"

section \<open>Rejected inputs\<close>

text \<open>
  Claim C4. \<open>hide_file\<close> returns \<open>False\<close> and writes nothing when the carrier does not
  begin with \<^verbatim>\<open>%PDF-\<close>, when it holds no \<^verbatim>\<open>%%EOF\<close>, when the file to hide does not
  exist, and when its extension, in lower case, is not one of the supported formats.
\<close>

theorem hide_file_rejects:
  assumes "(\<exists>c. read_file fs pdf_path = Inr c \<and> take 5 c \<noteq> pdf_header)
      \<or> (\<exists>c. read_file fs pdf_path = Inr c \<and> \<not> py_in c eof_marker)
      \<or> \<not> path_exists fs file_to_hide
      \<or> lower (snd (splitext file_to_hide)) \<notin> set SUPPORTED_FORMATS"
  shows "hide_file fs pdf_path file_to_hide output_path = (False, fs)"
proof (rule hide_file_False)
  fix fs'
  show "hide_file_body fs pdf_path file_to_hide output_path \<noteq> Inr fs'"
  proof
    assume "hide_file_body fs pdf_path file_to_hide output_path = Inr fs'"
    then obtain C P i where ok:
      "read_file fs pdf_path = Inr C" "take 5 C = pdf_header"
      "lower (snd (splitext file_to_hide)) \<in> set SUPPORTED_FORMATS"
      "read_file fs file_to_hide = Inr P" "py_rfind C eof_marker = Some i"
      unfolding hide_file_body_Inr_iff by blast
    from ok(5) have "py_in C eof_marker" by (simp add: py_in_rfind)
    with ok assms show False
      by (auto dest: read_file_exists)
  qed
qed

theorem hide_file_rejects_witness:
  "hide_file scenario_fs (ascii ''plain.pdf'') (ascii ''secret.txt'') (ascii ''out.pdf'')
     = (False, scenario_fs)
   \<and> hide_file scenario_fs (ascii ''cut.pdf'') (ascii ''secret.txt'') (ascii ''out.pdf'')
     = (False, scenario_fs)
   \<and> hide_file scenario_fs (ascii ''carrier.pdf'') (ascii ''absent.txt'') (ascii ''out.pdf'')
     = (False, scenario_fs)
   \<and> hide_file scenario_fs (ascii ''carrier.pdf'') (ascii ''notes.md'') (ascii ''out.pdf'')
     = (False, scenario_fs)"
proof (intro conjI)
  show "hide_file scenario_fs (ascii ''plain.pdf'') (ascii ''secret.txt'') (ascii ''out.pdf'')
     = (False, scenario_fs)"
    by (rule hide_file_rejects) (simp add: scenario_fs_def fs_eval marker_eval)
  show "hide_file scenario_fs (ascii ''cut.pdf'') (ascii ''secret.txt'') (ascii ''out.pdf'')
     = (False, scenario_fs)"
    by (rule hide_file_rejects) (simp add: scenario_fs_def fs_eval marker_eval)
  show "hide_file scenario_fs (ascii ''carrier.pdf'') (ascii ''absent.txt'') (ascii ''out.pdf'')
     = (False, scenario_fs)"
    by (rule hide_file_rejects) (simp add: scenario_fs_def fs_eval marker_eval)
  show "hide_file scenario_fs (ascii ''carrier.pdf'') (ascii ''notes.md'') (ascii ''out.pdf'')
     = (False, scenario_fs)"
    by (rule hide_file_rejects) (simp add: scenario_fs_def fs_eval path_eval)
qed

subsection \<open>The detector and the written carrier\<close>

lemma check_hidden_data_eq:
  "check_hidden_data fs p =
     (\<exists>c. read_file fs p = Inr c \<and> take 5 c = pdf_header
          \<and> py_in c MARKER \<and> py_in c MARKER_END)"
proof (cases "validate_pdf fs p")
  case (Inl e)
  then have "\<not> (\<exists>c. read_file fs p = Inr c \<and> take 5 c = pdf_header)"
    using validate_pdf_ok [of fs p] by auto
  with Inl show ?thesis
    by (auto simp: check_hidden_data_def check_hidden_data_body_def)
next
  case (Inr b)
  then obtain c where "read_file fs p = Inr c" "take 5 c = pdf_header"
    by (auto simp: validate_pdf_Inr)
  with Inr show ?thesis
    by (auto simp: check_hidden_data_def check_hidden_data_body_def)
qed

lemma take_header_layout:
  assumes "py_rfind C eof_marker = Some i"
  shows "take 5 (take (i + 5) C @ rest) = take 5 C"
proof -
  from py_rfind_Some [OF assms] have "i + 5 \<le> length C"
    by (simp add: length_eof_marker)
  then show ?thesis by (simp add: min_def)
qed

definition scenario_stego :: bytes where
  "scenario_stego =
     ascii_bytes ''%PDF-1.4'' @ newline @ ascii_bytes ''...body...'' @ newline
     @ ascii_bytes ''%%EOF'' @ newline @ ascii_bytes ''<<HIDDEN_DATA_START>>''
     @ [10, 0, 0, 0] @ ascii_bytes ''secret.txt'' @ [5, 0, 0, 0] @ ascii_bytes ''hello''
     @ ascii_bytes ''<<HIDDEN_DATA_END>>'' @ newline"

lemma scenario_hide_body:
  "hide_file_body scenario_fs (ascii ''carrier.pdf'') (ascii ''secret.txt'') (ascii ''out.pdf'')
     = Inr (scenario_fs\<lparr>files := (ascii ''out.pdf'', scenario_stego) # files scenario_fs\<rparr>)"
  unfolding hide_file_body_Inr_iff
  by (simp add: scenario_fs_def scenario_carrier_def scenario_stego_def fs_eval path_eval
      marker_eval utf8_encode_cp_def pack_u32_def)


lemma scenario_hide:
  "hide_file scenario_fs (ascii ''carrier.pdf'') (ascii ''secret.txt'') (ascii ''out.pdf'')
     = (True, scenario_fs\<lparr>files := (ascii ''out.pdf'', scenario_stego) # files scenario_fs\<rparr>)"
  by (simp add: hide_file_True_iff scenario_hide_body)

lemma hide_file_output_detected:
  assumes "hide_file fs pdf_path file_to_hide output_path = (True, fs')"
  shows "check_hidden_data fs' output_path"
proof -
  from assms obtain C P nb nl dl i where
    eof: "py_rfind C eof_marker = Some i" and hdr: "take 5 C = pdf_header"
    and wr: "write_file fs output_path
       (take (i + 5) C @ newline @ MARKER @ nl @ nb @ dl @ P @ MARKER_END @ newline) = Inr fs'"
    unfolding hide_file_True_iff hide_file_body_Inr_iff by blast
  let ?out = "take (i + 5) C @ newline @ MARKER @ nl @ nb @ dl @ P @ MARKER_END @ newline"
  have "?out = (take (i + 5) C @ newline) @ MARKER @ (nl @ nb @ dl @ P @ MARKER_END @ newline)"
    by simp
  then have m: "py_in ?out MARKER" unfolding py_in_iff by blast
  have "?out = (take (i + 5) C @ newline @ MARKER @ nl @ nb @ dl @ P) @ MARKER_END @ newline"
    by simp
  then have e: "py_in ?out MARKER_END" unfolding py_in_iff by blast
  have "take 5 ?out = take 5 C"
    by (rule take_header_layout [OF eof])
  with hdr have "take 5 ?out = pdf_header"
    by (simp only:)
  with write_file_read [OF wr] m e show ?thesis
    unfolding check_hidden_data_eq by blast
qed

section \<open>Detection\<close>

text \<open>
  Claim C5. For a file that passes the PDF check, \<open>check_hidden_data\<close> is \<open>True\<close>
  exactly when \<^verbatim>\<open><<HIDDEN_DATA_START>>\<close> occurs somewhere in its bytes and
  \<^verbatim>\<open><<HIDDEN_DATA_END>>\<close> occurs somewhere in its bytes, whatever their order. It is
  \<open>True\<close> on the output of every successful \<open>hide_file\<close>, and \<open>False\<close> on a file
  that lacks one of the markers.
\<close>

theorem check_hidden_data_iff_markers:
  "(validate_pdf fs p = Inr True \<longrightarrow> read_file fs p = Inr content \<longrightarrow>
      check_hidden_data fs p
        = ((\<exists>a b. content = a @ MARKER @ b) \<and> (\<exists>a b. content = a @ MARKER_END @ b)))
   \<and> (hide_file fs0 pdf_path file_to_hide output_path = (True, fs1)
        \<longrightarrow> check_hidden_data fs1 output_path)
   \<and> (read_file fs p = Inr content \<longrightarrow>
        \<not> ((\<exists>a b. content = a @ MARKER @ b) \<and> (\<exists>a b. content = a @ MARKER_END @ b))
        \<longrightarrow> \<not> check_hidden_data fs p)"
proof (intro conjI impI)
  assume "validate_pdf fs p = Inr True" and "read_file fs p = Inr content"
  then show "check_hidden_data fs p
      = ((\<exists>a b. content = a @ MARKER @ b) \<and> (\<exists>a b. content = a @ MARKER_END @ b))"
    by (simp add: check_hidden_data_eq validate_pdf_Inr py_in_iff)
next
  assume "hide_file fs0 pdf_path file_to_hide output_path = (True, fs1)"
  then show "check_hidden_data fs1 output_path"
    by (rule hide_file_output_detected)
next
  assume "read_file fs p = Inr content"
    and "\<not> ((\<exists>a b. content = a @ MARKER @ b) \<and> (\<exists>a b. content = a @ MARKER_END @ b))"
  then show "\<not> check_hidden_data fs p"
    by (simp add: check_hidden_data_eq py_in_iff)
qed

theorem check_hidden_data_iff_markers_witness:
  "check_hidden_data reversed_markers_fs (ascii ''x.pdf'')
   \<and> check_hidden_data
        (scenario_fs\<lparr>files := (ascii ''out.pdf'', scenario_stego) # files scenario_fs\<rparr>)
        (ascii ''out.pdf'')
   \<and> \<not> check_hidden_data scenario_fs (ascii ''carrier.pdf'')"
proof (intro conjI)
  let ?c = "ascii_bytes ''%PDF-<<HIDDEN_DATA_END>><<HIDDEN_DATA_START>>''"
  have r: "read_file reversed_markers_fs (ascii ''x.pdf'') = Inr ?c"
    by (simp add: reversed_markers_fs_def fs_eval)
  have v: "validate_pdf reversed_markers_fs (ascii ''x.pdf'') = Inr True"
    by (rule validate_pdf_ok [OF r]) (simp add: ascii_bytes_def pdf_header_def)
  have "py_in ?c MARKER" "py_in ?c MARKER_END"
    by (simp_all add: ascii_bytes_def marker_eval)
  then have "(\<exists>a b. ?c = a @ MARKER @ b) \<and> (\<exists>a b. ?c = a @ MARKER_END @ b)"
    by (simp add: py_in_iff)
  with check_hidden_data_iff_markers [of reversed_markers_fs "ascii ''x.pdf''" ?c] r v
  show "check_hidden_data reversed_markers_fs (ascii ''x.pdf'')"
    by blast
next
  from check_hidden_data_iff_markers scenario_hide
  show "check_hidden_data
        (scenario_fs\<lparr>files := (ascii ''out.pdf'', scenario_stego) # files scenario_fs\<rparr>)
        (ascii ''out.pdf'')"
    by blast
next
  have r: "read_file scenario_fs (ascii ''carrier.pdf'') = Inr scenario_carrier"
    by (simp add: scenario_fs_def fs_eval)
  have "\<not> py_in scenario_carrier MARKER"
    by (simp add: scenario_carrier_def ascii_bytes_def marker_eval)
  then have "\<not> ((\<exists>a b. scenario_carrier = a @ MARKER @ b)
      \<and> (\<exists>a b. scenario_carrier = a @ MARKER_END @ b))"
    by (simp add: py_in_iff)
  with check_hidden_data_iff_markers [of scenario_fs "ascii ''carrier.pdf''" scenario_carrier] r
  show "\<not> check_hidden_data scenario_fs (ascii ''carrier.pdf'')"
    by blast
qed

section \<open>Describing without checking\<close>

definition short_payload_fs :: filesystem where
  "short_payload_fs =
     \<lparr>files = [(ascii ''short.pdf'',
                 ascii_bytes ''%PDF-<<HIDDEN_DATA_START>>'' @ [3, 0, 0, 0] @ ascii_bytes ''a.b''
                 @ [9, 0, 0, 0] @ ascii_bytes ''hi<<HIDDEN_DATA_END>>'')],
      dirs = []\<rparr>"

lemma unpack_u32_Inr_length: "unpack_u32 bs = Inr n \<Longrightarrow> length bs = 4"
  by (cases bs rule: unpack_u32.cases) simp_all

lemma length_slice: "length (py_slice a b xs) = min (length xs) b - a"
  by (simp add: py_slice_def)

text \<open>
  Claim C10. \<open>get_hidden_file_info\<close> checks nothing about the payload: when the
  package between the markers declares a data length larger than the number of bytes
  that follow the header, it still returns the name and the declared length, while
  \<open>extract_file\<close> on the same file raises the data-corruption error, returns
  \<open>None\<close> and writes nothing.
\<close>

theorem info_without_integrity_check:
  assumes "validate_pdf fs pdf_path = Inr True"
    and "read_file fs pdf_path = Inr content"
    and "py_find content MARKER = Some s"
    and "py_find content MARKER_END = Some e"
    and "unpack_u32 (py_slice 0 4 (py_slice (s + 21) e content)) = Inr filename_length"
    and "utf8_decode (py_slice 4 (4 + filename_length) (py_slice (s + 21) e content)) = Inr filename"
    and "unpack_u32 (py_slice (4 + filename_length) (4 + filename_length + 4)
           (py_slice (s + 21) e content)) = Inr data_length"
    and "length (py_slice (s + 21) e content) < 4 + filename_length + 4 + data_length"
  shows "get_hidden_file_info fs pdf_path = Some (filename, data_length)
    \<and> extract_file_body fs pdf_path output_dir = Inl DataCorruption
    \<and> extract_file fs pdf_path output_dir = (None, fs)"
proof -
  let ?pkg = "py_slice (s + 21) e content"
  have info: "get_hidden_file_info fs pdf_path = Some (filename, data_length)"
    using assms(1-7)
    by (simp add: get_hidden_file_info_def get_hidden_file_info_body_def length_MARKER)
  from unpack_u32_Inr_length [OF assms(7)] have "4 + filename_length + 4 \<le> length ?pkg"
    by (simp add: length_slice)
  with assms(8) have
    "length (py_slice (4 + filename_length + 4) (4 + filename_length + 4 + data_length) ?pkg)
       \<noteq> data_length"
    by (simp add: length_slice)
  with assms(1-7) have body: "extract_file_body fs pdf_path output_dir = Inl DataCorruption"
    by (simp add: extract_file_body_def length_MARKER)
  then have "extract_file fs pdf_path output_dir = (None, fs)"
    by (simp add: extract_file_def)
  with info body show ?thesis by simp
qed

theorem info_without_integrity_check_witness:
  "get_hidden_file_info short_payload_fs (ascii ''short.pdf'') = Some (ascii ''a.b'', 9)
   \<and> extract_file_body short_payload_fs (ascii ''short.pdf'') (ascii ''out'') = Inl DataCorruption
   \<and> extract_file short_payload_fs (ascii ''short.pdf'') (ascii ''out'')
       = (None, short_payload_fs)"
proof -
  let ?c = "ascii_bytes ''%PDF-<<HIDDEN_DATA_START>>'' @ [3, 0, 0, 0] @ ascii_bytes ''a.b''
                 @ [9, 0, 0, 0] @ ascii_bytes ''hi<<HIDDEN_DATA_END>>''"
  have r: "read_file short_payload_fs (ascii ''short.pdf'') = Inr ?c"
    by (simp add: short_payload_fs_def fs_eval)
  have v: "validate_pdf short_payload_fs (ascii ''short.pdf'') = Inr True"
    by (rule validate_pdf_ok [OF r]) (simp add: ascii_bytes_def pdf_header_def)
  have s: "py_find ?c MARKER = Some 5"
    by (simp add: ascii_bytes_def MARKER_def)
  have e: "py_find ?c MARKER_END = Some 39"
    by (simp add: ascii_bytes_def MARKER_END_def)
  have pkg: "py_slice (5 + 21) 39 ?c = [3, 0, 0, 0] @ ascii_bytes ''a.b'' @ [9, 0, 0, 0]
      @ ascii_bytes ''hi''"
    by (simp add: py_slice_def ascii_bytes_def)
  have n: "unpack_u32 (py_slice 0 4 (py_slice (5 + 21) 39 ?c)) = Inr 3"
    unfolding pkg by (simp add: py_slice_def ascii_bytes_def)
  have f: "utf8_decode (py_slice 4 (4 + 3) (py_slice (5 + 21) 39 ?c)) = Inr (ascii ''a.b'')"
    unfolding pkg by (simp add: py_slice_def ascii_bytes_def ascii_def)
  have d: "unpack_u32 (py_slice (4 + 3) (4 + 3 + 4) (py_slice (5 + 21) 39 ?c)) = Inr 9"
    unfolding pkg by (simp add: py_slice_def ascii_bytes_def)
  have l: "length (py_slice (5 + 21) 39 ?c) < 4 + 3 + 4 + 9"
    unfolding pkg by (simp add: ascii_bytes_def)
  show ?thesis
    by (rule info_without_integrity_check [OF v r s e n f d l])
qed

section \<open>Failures become results\<close>



subsection \<open>The last occurrence\<close>





section \<open>What \<open>hide_file\<close> writes\<close>

text \<open>
  The layout in the words of the specification: a length is four bytes, least
  significant first; the package is the length of the name, the name, the length of
  the data and the data; the output is the carrier up to and including its last
  \<^verbatim>\<open>%%EOF\<close>, a newline, the start marker, the package, the end marker and a newline.
\<close>

definition le32 :: "nat \<Rightarrow> bytes" where
  "le32 n =
     [of_nat (n mod 256), of_nat (n div 256 mod 256), of_nat (n div 65536 mod 256),
      of_nat (n div 16777216 mod 256)]"





lemma byte_of_nat_mod: "(of_nat (n mod 256) :: byte) = of_nat n"
  by (simp add: word_unat_eq_iff unat_byte_mod)

lemma pack_u32_le32: "pack_u32 n = Inr bs \<longleftrightarrow> n < 4294967296 \<and> bs = le32 n"
  by (auto simp: pack_u32_def le32_def byte_of_nat_mod)





subsection \<open>Where the markers are found in a written carrier\<close>

lemma length_newline: "length newline = 1"
  by (simp add: newline_def)

lemma drop_layout_pre:
  "j \<le> length pre \<Longrightarrow> drop j (pre @ newline @ rest) = drop j pre @ 10 # rest"
  by (simp add: newline_def)

lemma drop_layout_marker:
  "t < 21 \<Longrightarrow> drop (length pre + 1 + t) (pre @ newline @ MARKER @ rest) = drop t MARKER @ rest"
  by (simp add: length_newline length_MARKER)

lemma drop_layout_rest:
  "length pre + 22 \<le> j \<Longrightarrow>
   drop j (pre @ newline @ MARKER @ rest) = drop (j - (length pre + 22)) rest"
  by (simp add: length_newline length_MARKER add.commute)

lemma find_MARKER_layout:
  assumes "\<not> py_in pre MARKER"
  shows "py_find (pre @ newline @ MARKER @ rest) MARKER = Some (length pre + 1)"
proof -
  have "\<not> prefix MARKER (drop j (pre @ newline @ MARKER @ rest))" if "j < length pre + 1" for j
  proof
    assume occ: "prefix MARKER (drop j (pre @ newline @ MARKER @ rest))"
    from that have "j \<le> length pre" by simp
    with occ have "prefix MARKER (drop j pre @ 10 # MARKER @ rest)"
      by (simp only: drop_layout_pre)
    then have "prefix MARKER (drop j pre)"
      by (rule prefix_before_sep [OF newline_notin_MARKER])
    then have "py_in pre MARKER" by (rule occurrence_py_in)
    with assms show False by simp
  qed
  moreover have "prefix MARKER (drop (length pre + 1) (pre @ newline @ MARKER @ rest))"
    by (simp add: length_newline)
  moreover have "length pre + 1 \<le> length (pre @ newline @ MARKER @ rest)"
    by (simp add: length_newline)
  ultimately show ?thesis
    unfolding py_find_Some_iff by blast
qed

lemma END_occurrence_layout:
  assumes occ: "prefix MARKER_END (drop j (pre @ newline @ MARKER @ rest))"
    and pre: "\<not> py_in pre MARKER_END"
  shows "length pre + 22 \<le> j \<and> prefix MARKER_END (drop (j - (length pre + 22)) rest)"
proof -
  consider (a) "j \<le> length pre" | (b) "length pre < j" "j < length pre + 22"
    | (c) "length pre + 22 \<le> j"
    by linarith
  then show ?thesis
  proof cases
    case a
    with occ have "prefix MARKER_END (drop j pre @ 10 # MARKER @ rest)"
      by (simp only: drop_layout_pre)
    then have "prefix MARKER_END (drop j pre)"
      by (rule prefix_before_sep [OF newline_notin_MARKER_END])
    then have "py_in pre MARKER_END" by (rule occurrence_py_in)
    with pre show ?thesis by simp
  next
    case b
    define t where "t = j - (length pre + 1)"
    from b have t: "t < 21" and j: "j = length pre + 1 + t"
      by (simp_all add: t_def)
    from occ have "prefix MARKER_END (drop t MARKER @ rest)"
      unfolding j by (simp only: drop_layout_marker [OF t])
    with END_not_inside_START [OF t] show ?thesis by simp
  next
    case c
    with occ show ?thesis
      by (simp only: drop_layout_rest [OF c] simp_thms)
  qed
qed

lemma END_not_across_package_end:
  assumes occ: "prefix MARKER_END (drop s (pkg @ MARKER_END @ tail))"
    and s: "s < length pkg"
  shows "prefix MARKER_END (drop s pkg)"
proof -
  from s have d: "drop s (pkg @ MARKER_END @ tail) = drop s pkg @ MARKER_END @ tail"
    by simp
  from occ consider "prefix MARKER_END (drop s pkg)"
    | us where "MARKER_END = drop s pkg @ us" "prefix us (MARKER_END @ tail)"
    unfolding d by (auto simp: prefix_append)
  then show ?thesis
  proof cases
    case 1
    then show ?thesis .
  next
    case 2
    define k where "k = length (drop s pkg)"
    from s have "0 < k" by (simp add: k_def)
    from 2(1) have "length MARKER_END = length (drop s pkg @ us)"
      by simp
    then have len: "k + length us = 19"
      by (simp add: k_def length_MARKER_END)
    have us: "us = drop k MARKER_END"
      by (subst 2(1)) (simp add: k_def)
    show ?thesis
    proof (cases "us = []")
      case True
      with 2(1) show ?thesis by simp
    next
      case False
      with len have "k < 19" by (cases us) auto
      from 2(2) have "prefix us MARKER_END"
        using len length_MARKER_END
        by (auto simp: prefix_append)
      with END_no_border [OF \<open>0 < k\<close> \<open>k < 19\<close>] us show ?thesis by simp
    qed
  qed
qed




subsection \<open>The parse shared by \<open>extract_file\<close> and \<open>get_hidden_file_info\<close>\<close>

text \<open>
  Both methods find the markers and read the header in the same way. \<open>read_header\<close>
  names that common part, so that it can be reasoned about once; the two lemmas after
  it state that the methods are this parse followed by their own last steps.
\<close>

definition read_header :: "bytes \<Rightarrow> (error + bytes \<times> ustr \<times> nat) option" where
  "read_header pdf_content =
     (case (py_find pdf_content MARKER, py_find pdf_content MARKER_END) of
        (Some start, Some end_pos) \<Rightarrow>
          Some (
            let hidden_package = py_slice (start + length MARKER) end_pos pdf_content in
            bind_err (unpack_u32 (py_slice 0 4 hidden_package)) (\<lambda>filename_length.
            bind_err (utf8_decode (py_slice 4 (4 + filename_length) hidden_package)) (\<lambda>filename.
            bind_err (unpack_u32 (py_slice (4 + filename_length) (4 + filename_length + 4)
                        hidden_package)) (\<lambda>data_length.
            Inr (py_slice (4 + filename_length + 4) (4 + filename_length + 4 + data_length)
                   hidden_package, filename, data_length)))))
      | _ \<Rightarrow> None)"

lemma get_hidden_file_info_body_header:
  "get_hidden_file_info_body fs pdf_path =
     bind_err (validate_pdf fs pdf_path) (\<lambda>_.
     bind_err (read_file fs pdf_path) (\<lambda>pdf_content.
     case read_header pdf_content of
       None \<Rightarrow> Inr None
     | Some h \<Rightarrow> bind_err h (\<lambda>(hidden_data, filename, data_length).
         Inr (Some (filename, data_length)))))"
  unfolding get_hidden_file_info_body_def read_header_def
  by (auto simp: Let_def bind_err_def split: sum.splits option.splits intro!: arg_cong2 [where f = bind_err] ext)



lemma slice_middle: "py_slice (length a) (length a + length b) (a @ b @ c) = b"
  by (simp add: py_slice_def)

lemma slice_middle_more:
  "length b \<le> n \<Longrightarrow> py_slice (length a) (length a + n) (a @ b) = b"
  by (simp add: py_slice_def)

lemma pack_u32_length: "pack_u32 n = Inr bs \<Longrightarrow> length bs = 4"
  by (auto simp: pack_u32_def split: if_splits)

lemma read_header_parse:
  assumes pk1: "pack_u32 (length nb) = Inr nl" and pk2: "pack_u32 (length P) = Inr dl"
    and dec: "utf8_decode nb = Inr name"
  shows "(let hidden_package = nl @ nb @ dl @ rest in
            bind_err (unpack_u32 (py_slice 0 4 hidden_package)) (\<lambda>filename_length.
            bind_err (utf8_decode (py_slice 4 (4 + filename_length) hidden_package)) (\<lambda>filename.
            bind_err (unpack_u32 (py_slice (4 + filename_length) (4 + filename_length + 4)
                        hidden_package)) (\<lambda>data_length.
            Inr (py_slice (4 + filename_length + 4) (4 + filename_length + 4 + data_length)
                   hidden_package, filename, data_length)))))
         = Inr (take (length P) rest, name, length P)"
proof -
  note l1 = pack_u32_length [OF pk1] and l2 = pack_u32_length [OF pk2]
  have s1: "py_slice 0 4 (nl @ nb @ dl @ rest) = nl"
    using l1 by (simp add: py_slice_def)
  have s2: "py_slice 4 (4 + length nb) (nl @ nb @ dl @ rest) = nb"
    using slice_middle [of nl nb "dl @ rest"] l1 by simp
  have s3: "py_slice (4 + length nb) (4 + length nb + 4) (nl @ nb @ dl @ rest) = dl"
    using slice_middle [of "nl @ nb" dl rest] l1 l2 by simp
  have s4: "py_slice (4 + length nb + 4) (4 + length nb + 4 + length P) (nl @ nb @ dl @ rest)
      = take (length P) rest"
    using l1 l2 by (simp add: py_slice_def)
  show ?thesis
    unfolding Let_def s1 bind_err_Inr unpack_pack_u32 [OF pk1] s2 dec
    apply (simp only: s3 unpack_pack_u32 [OF pk2] bind_err_Inr)
    apply (simp only: s4)
    done
qed




lemma slice_prefix_part:
  "s \<le> length pkg \<Longrightarrow> py_slice (length a) (length a + s) (a @ pkg @ c) = take s pkg"
  by (simp add: py_slice_def)

lemma read_header_layout_info:
  assumes pk1: "pack_u32 (length nb) = Inr nl" and pk2: "pack_u32 (length P) = Inr dl"
    and dec: "utf8_decode nb = Inr name"
    and c1: "\<not> py_in pre MARKER" and c2: "\<not> py_in pre MARKER_END"
    and c3: "\<And>j. j < 8 + length nb
               \<Longrightarrow> \<not> prefix MARKER_END (drop j (nl @ nb @ dl @ P @ MARKER_END))"
  shows "\<exists>d. read_header (pre @ newline @ MARKER @ nl @ nb @ dl @ P @ MARKER_END @ tail)
    = Some (Inr (d, name, length P))"
proof -
  let ?pkg = "nl @ nb @ dl @ P"
  let ?out = "pre @ newline @ MARKER @ ?pkg @ MARKER_END @ tail"
  note l1 = pack_u32_length [OF pk1] and l2 = pack_u32_length [OF pk2]
  have f1: "py_find ?out MARKER = Some (length pre + 1)"
    using find_MARKER_layout [OF c1, of "?pkg @ MARKER_END @ tail"] by simp
  have at_end: "prefix MARKER_END (drop (length pre + 22 + length ?pkg) ?out)"
    by (simp add: length_newline length_MARKER)
  then have "py_in ?out MARKER_END"
    by (rule occurrence_py_in)
  then obtain e where f2: "py_find ?out MARKER_END = Some e"
    by (auto simp: py_in_find)
  then have occ: "prefix MARKER_END (drop e ?out)"
    and first: "\<And>j. j < e \<Longrightarrow> \<not> prefix MARKER_END (drop j ?out)"
    by (simp_all add: py_find_Some_iff)
  from first [of "length pre + 22 + length ?pkg"] at_end
  have upper: "e \<le> length pre + 22 + length ?pkg"
    by (meson not_le_imp_less)
  from END_occurrence_layout [OF occ c2]
  have lower: "length pre + 22 \<le> e"
    and occ': "prefix MARKER_END (drop (e - (length pre + 22)) (?pkg @ MARKER_END @ tail))"
    by simp_all
  define s where "s = e - (length pre + 22)"
  from lower upper have e: "e = length pre + 22 + s" and s: "s \<le> length ?pkg"
    by (simp_all add: s_def)
  have hdr: "8 + length nb \<le> s"
  proof (rule ccontr)
    assume "\<not> 8 + length nb \<le> s"
    then have small: "s < 8 + length nb" by simp
    with l1 l2 have "s < length ?pkg" by simp
    from END_not_across_package_end [OF occ' [folded s_def] this]
    have "prefix MARKER_END (drop s ?pkg)" .
    then have "prefix MARKER_END (drop s ?pkg @ MARKER_END)"
      by (rule prefix_prefix)
    with \<open>s < length ?pkg\<close> have "prefix MARKER_END (drop s (?pkg @ MARKER_END))"
      by simp
    with c3 [OF small] show False by simp
  qed
  define rest where "rest = take (s - (8 + length nb)) P"
  have "take s ?pkg = nl @ nb @ dl @ rest"
    using hdr l1 l2 by (simp add: rest_def)
  moreover have "py_slice (length (pre @ newline @ MARKER)) (length (pre @ newline @ MARKER) + s)
      ((pre @ newline @ MARKER) @ ?pkg @ MARKER_END @ tail) = take s ?pkg"
    by (rule slice_prefix_part [OF s])
  ultimately have pkg: "py_slice (length pre + 1 + length MARKER) e ?out = nl @ nb @ dl @ rest"
    unfolding e by (simp add: length_newline length_MARKER add.commute add.left_commute)
  have "read_header ?out = Some (Inr (take (length P) rest, name, length P))"
    unfolding read_header_def f1 f2 option.case prod.case pkg
    using read_header_parse [OF pk1 pk2 dec, of rest] by simp
  then show ?thesis
    by simp
qed

subsection \<open>The loop that looks for a free path\<close>





subsection \<open>Paths built by \<open>join\<close> and \<open>splitext\<close>\<close>






subsection \<open>What a successful \<open>extract_file\<close> has done\<close>



lemma get_hidden_file_info_header:
  assumes "read_file fs pdf_path = Inr content" and "take 5 content = pdf_header"
  shows "get_hidden_file_info fs pdf_path =
     (case read_header content of
        None \<Rightarrow> None
      | Some (Inl e) \<Rightarrow> None
      | Some (Inr (data, name, n)) \<Rightarrow> Some (name, n))"
  using assms validate_pdf_ok [OF assms]
  by (simp add: get_hidden_file_info_def get_hidden_file_info_body_header
      split: option.splits sum.splits)

lemma makedirs_Inr:
  "makedirs fs d = Inr fs1 \<longleftrightarrow>
     d \<noteq> [] \<and> (if d \<in> set (dirs fs) then fs1 = fs
                else map_of (files fs) d = None \<and> fs1 = fs\<lparr>dirs := d # dirs fs\<rparr>)"
  by (auto simp: makedirs_def)

lemma makedirs_again: "makedirs fs d = Inr fs1 \<Longrightarrow> makedirs fs1 d = Inr fs1"
  by (auto simp: makedirs_Inr split: if_splits)


lemma makedirs_files: "makedirs fs d = Inr fs1 \<Longrightarrow> files fs1 = files fs"
  by (auto simp: makedirs_Inr split: if_splits)







subsection \<open>The scenario, extracted\<close>

definition scenario_stego_fs :: filesystem where
  "scenario_stego_fs =
     scenario_fs\<lparr>files := (ascii ''out.pdf'', scenario_stego) # files scenario_fs\<rparr>"









section \<open>Name collisions\<close>



subsection \<open>The carrier that \<open>hide_file\<close> wrote, read back\<close>


lemma hide_file_written:
  assumes emb: "hide_file fs pdf_path file_to_hide output_path = (True, fs')"
    and C: "read_file fs pdf_path = Inr C" and P: "read_file fs file_to_hide = Inr P"
    and i: "py_rfind C eof_marker = Some i"
    and nb: "utf8_encode (basename file_to_hide) = Inr nb"
  shows "read_file fs' output_path
      = Inr (take (i + 5) C @ newline @ MARKER @ le32 (length nb) @ nb @ le32 (length P) @ P
             @ MARKER_END @ newline)"
    and "take 5 (take (i + 5) C @ newline @ MARKER @ le32 (length nb) @ nb @ le32 (length P) @ P
             @ MARKER_END @ newline) = pdf_header"
    and "pack_u32 (length nb) = Inr (le32 (length nb))"
    and "pack_u32 (length P) = Inr (le32 (length P))"
    and "fs' = fs\<lparr>files := (output_path,
            take (i + 5) C @ newline @ MARKER @ le32 (length nb) @ nb @ le32 (length P) @ P
             @ MARKER_END @ newline) # files fs\<rparr>"
proof -
  let ?out = "take (i + 5) C @ newline @ MARKER @ le32 (length nb) @ nb @ le32 (length P) @ P
             @ MARKER_END @ newline"
  from emb C P i nb have hd: "take 5 C = pdf_header"
    and l1: "length nb < 4294967296" and l2: "length P < 4294967296"
    and wr: "write_file fs output_path ?out = Inr fs'"
    unfolding hide_file_True_iff hide_file_body_Inr_iff pack_u32_le32 by auto
  show "read_file fs' output_path = Inr ?out"
    by (rule write_file_read [OF wr])
  show "take 5 ?out = pdf_header"
    using take_header_layout [OF i] hd by (simp only:)
  show "pack_u32 (length nb) = Inr (le32 (length nb))"
    using l1 by (simp add: pack_u32_le32)
  show "pack_u32 (length P) = Inr (le32 (length P))"
    using l2 by (simp add: pack_u32_le32)
  show "fs' = fs\<lparr>files := (output_path, ?out) # files fs\<rparr>"
    using wr by (simp add: write_file_Inr)
qed

section \<open>Round trip\<close>



lemma scenario_hide_stego:
  "hide_file scenario_fs (ascii ''carrier.pdf'') (ascii ''secret.txt'') (ascii ''out.pdf'')
     = (True, scenario_stego_fs)"
  by (simp add: scenario_hide scenario_stego_fs_def)

lemma scenario_eof: "py_rfind scenario_carrier eof_marker = Some 20"
  by (simp add: scenario_carrier_def ascii_bytes_def marker_eval)

lemma scenario_name_bytes:
  "utf8_encode (basename (ascii ''secret.txt'')) = Inr (ascii_bytes ''secret.txt'')"
  by (simp add: path_eval ascii_def ascii_bytes_def utf8_encode_cp_def)

lemma scenario_kept_clean:
  "\<not> py_in (take (20 + 5) scenario_carrier) MARKER"
  "\<not> py_in (take (20 + 5) scenario_carrier) MARKER_END"
  by (simp_all add: scenario_carrier_def ascii_bytes_def marker_eval)


definition marker_payload_fs :: filesystem where
  "marker_payload_fs =
     \<lparr>files = [(ascii ''carrier.pdf'', scenario_carrier),
               (ascii ''secret.txt'', ascii_bytes ''a<<HIDDEN_DATA_END>>b'')],
      dirs = []\<rparr>"

definition marker_payload_stego :: bytes where
  "marker_payload_stego =
     ascii_bytes ''%PDF-1.4'' @ newline @ ascii_bytes ''...body...'' @ newline
     @ ascii_bytes ''%%EOF'' @ newline @ ascii_bytes ''<<HIDDEN_DATA_START>>''
     @ [10, 0, 0, 0] @ ascii_bytes ''secret.txt'' @ [21, 0, 0, 0]
     @ ascii_bytes ''a<<HIDDEN_DATA_END>>b'' @ ascii_bytes ''<<HIDDEN_DATA_END>>'' @ newline"

definition marker_payload_stego_fs :: filesystem where
  "marker_payload_stego_fs =
     marker_payload_fs\<lparr>files :=
       (ascii ''out.pdf'', marker_payload_stego) # files marker_payload_fs\<rparr>"


section \<open>Truncated carriers\<close>






section \<open>Describing the hidden file\<close>

lemma prefix_append_take:
  assumes "prefix m (a @ b)" and "length m \<le> length a + n"
  shows "prefix m (a @ take n b)"
proof -
  from assms(1) obtain z where z: "a @ b = m @ z"
    by (auto simp: prefix_def)
  have "a @ take n b = take (length a + n) (a @ b)"
    by simp
  also have "\<dots> = take (length a + n) (m @ z)"
    by (simp only: z)
  also have "\<dots> = m @ take (length a + n - length m) z"
    using assms(2) by simp
  finally show ?thesis
    by (simp add: prefix_def)
qed

lemma END_not_in_header:
  assumes c3: "\<not> py_in (nl @ nb @ dl @ take 18 P) MARKER_END"
    and l1: "length nl = 4" and l2: "length dl = 4"
    and j: "j < 8 + length nb"
  shows "\<not> prefix MARKER_END (drop j (nl @ nb @ dl @ P @ MARKER_END))"
proof
  let ?hdr = "nl @ nb @ dl"
  assume "prefix MARKER_END (drop j (nl @ nb @ dl @ P @ MARKER_END))"
  then have occ: "prefix MARKER_END (drop j ((?hdr @ P) @ MARKER_END @ []))"
    by simp
  from j l1 l2 have jh: "j < length ?hdr"
    by simp
  then have "j < length (?hdr @ P)"
    by simp
  from END_not_across_package_end [OF occ this]
  have "prefix MARKER_END (drop j ?hdr @ P)"
    using jh by simp
  moreover from jh have "length MARKER_END \<le> length (drop j ?hdr) + 18"
    by (simp add: length_MARKER_END)
  ultimately have "prefix MARKER_END (drop j ?hdr @ take 18 P)"
    by (rule prefix_append_take)
  with jh have "prefix MARKER_END (drop j (?hdr @ take 18 P))"
    by simp
  then have "py_in (?hdr @ take 18 P) MARKER_END"
    by (rule occurrence_py_in)
  with c3 show False
    by simp
qed

lemma read_header_None:
  "\<not> (py_in content MARKER \<and> py_in content MARKER_END) \<Longrightarrow> read_header content = None"
  by (auto simp: read_header_def py_in_find split: option.splits)

text \<open>
  Claim C6, as the code has it. \<open>get_hidden_file_info\<close> takes the first occurrence
  of each marker, like \<open>extract_file\<close>. When \<open>hide_file\<close> has succeeded, the part of
  the carrier it kept holds neither marker and \<^verbatim>\<open><<HIDDEN_DATA_END>>\<close> does not occur
  in the name length, the name and the data length followed by the first 18 bytes of
  the data, then \<open>get_hidden_file_info\<close> on the written file returns the stored name
  and the length of the data; what the data holds beyond that is not looked at. For a
  valid PDF that lacks one of the markers the method returns \<open>None\<close> through its
  ordinary \<^verbatim>\<open>return\<close>, not through the exception handler.

  Without the condition on the carrier the first part fails: a carrier that mentions
  \<^verbatim>\<open><<HIDDEN_DATA_END>>\<close> before its \<^verbatim>\<open>%%EOF\<close> is embedded into, and the description of
  the result is \<open>None\<close> (\<open>info_of_embedded_counterexample\<close>).
\<close>

theorem info_of_embedded:
  "(hide_file fs pdf_path file_to_hide output_path = (True, fs')
      \<longrightarrow> read_file fs pdf_path = Inr C \<longrightarrow> read_file fs file_to_hide = Inr P
      \<longrightarrow> py_rfind C eof_marker = Some i
      \<longrightarrow> utf8_encode (basename file_to_hide) = Inr nb
      \<longrightarrow> \<not> py_in (take (i + 5) C) MARKER
      \<longrightarrow> \<not> py_in (take (i + 5) C) MARKER_END
      \<longrightarrow> \<not> py_in (le32 (length nb) @ nb @ le32 (length P) @ take 18 P) MARKER_END
      \<longrightarrow> get_hidden_file_info fs' output_path = Some (basename file_to_hide, length P))
   \<and> (validate_pdf fs0 p = Inr True \<longrightarrow> read_file fs0 p = Inr content
      \<longrightarrow> \<not> (py_in content MARKER \<and> py_in content MARKER_END)
      \<longrightarrow> get_hidden_file_info_body fs0 p = Inr None \<and> get_hidden_file_info fs0 p = None)"
proof (intro conjI impI)
  assume emb: "hide_file fs pdf_path file_to_hide output_path = (True, fs')"
    and C: "read_file fs pdf_path = Inr C" and P: "read_file fs file_to_hide = Inr P"
    and i: "py_rfind C eof_marker = Some i"
    and nb: "utf8_encode (basename file_to_hide) = Inr nb"
    and c1: "\<not> py_in (take (i + 5) C) MARKER"
    and c2: "\<not> py_in (take (i + 5) C) MARKER_END"
    and c3: "\<not> py_in (le32 (length nb) @ nb @ le32 (length P) @ take 18 P) MARKER_END"
  note w = hide_file_written [OF emb C P i nb]
  have dec: "utf8_decode nb = Inr (basename file_to_hide)"
    by (rule utf8_decode_encode [OF nb])
  have l4: "length (le32 m) = 4" for m
    by (simp add: le32_def)
  from read_header_layout_info [OF w(3) w(4) dec c1 c2 END_not_in_header [OF c3 l4 l4]]
  obtain d where "read_header (take (i + 5) C @ newline @ MARKER @ le32 (length nb) @ nb
      @ le32 (length P) @ P @ MARKER_END @ newline)
      = Some (Inr (d, basename file_to_hide, length P))"
    by blast
  then show "get_hidden_file_info fs' output_path = Some (basename file_to_hide, length P)"
    by (simp add: get_hidden_file_info_header [OF w(1) w(2)])
next
  assume v: "validate_pdf fs0 p = Inr True" and r: "read_file fs0 p = Inr content"
    and m: "\<not> (py_in content MARKER \<and> py_in content MARKER_END)"
  from read_header_None [OF m]
  show "get_hidden_file_info_body fs0 p = Inr None"
    by (simp add: get_hidden_file_info_body_header v r)
  then show "get_hidden_file_info fs0 p = None"
    by (simp add: get_hidden_file_info_def)
qed


lemma marker_payload_hide:
  "hide_file marker_payload_fs (ascii ''carrier.pdf'') (ascii ''secret.txt'') (ascii ''out.pdf'')
     = (True, marker_payload_stego_fs)"
  unfolding hide_file_True_iff hide_file_body_Inr_iff
  by (simp add: marker_payload_fs_def marker_payload_stego_fs_def marker_payload_stego_def
      scenario_carrier_def fs_eval path_eval marker_eval utf8_encode_cp_def pack_u32_def)

theorem info_of_embedded_witness:
  "get_hidden_file_info scenario_stego_fs (ascii ''out.pdf'')
     = Some (basename (ascii ''secret.txt''), length (ascii_bytes ''hello''))
   \<and> get_hidden_file_info marker_payload_stego_fs (ascii ''out.pdf'')
     = Some (basename (ascii ''secret.txt''), length (ascii_bytes ''a<<HIDDEN_DATA_END>>b''))
   \<and> get_hidden_file_info_body scenario_fs (ascii ''carrier.pdf'') = Inr None
   \<and> get_hidden_file_info scenario_fs (ascii ''carrier.pdf'') = None"
proof -
  have C: "read_file scenario_fs (ascii ''carrier.pdf'') = Inr scenario_carrier"
    by (simp add: scenario_fs_def fs_eval)
  have P: "read_file scenario_fs (ascii ''secret.txt'') = Inr (ascii_bytes ''hello'')"
    by (simp add: scenario_fs_def fs_eval)
  have c3: "\<not> py_in (le32 (length (ascii_bytes ''secret.txt'')) @ ascii_bytes ''secret.txt''
      @ le32 (length (ascii_bytes ''hello'')) @ take 18 (ascii_bytes ''hello'')) MARKER_END"
    by (simp add: le32_def ascii_bytes_def marker_eval)
  note a = info_of_embedded [THEN conjunct1, rule_format,
      OF scenario_hide_stego C P scenario_eof scenario_name_bytes scenario_kept_clean c3]
  have C': "read_file marker_payload_fs (ascii ''carrier.pdf'') = Inr scenario_carrier"
    by (simp add: marker_payload_fs_def fs_eval)
  have P': "read_file marker_payload_fs (ascii ''secret.txt'')
      = Inr (ascii_bytes ''a<<HIDDEN_DATA_END>>b'')"
    by (simp add: marker_payload_fs_def fs_eval)
  have c3': "\<not> py_in (le32 (length (ascii_bytes ''secret.txt'')) @ ascii_bytes ''secret.txt''
      @ le32 (length (ascii_bytes ''a<<HIDDEN_DATA_END>>b''))
      @ take 18 (ascii_bytes ''a<<HIDDEN_DATA_END>>b'')) MARKER_END"
    by (simp add: le32_def ascii_bytes_def marker_eval)
  note b = info_of_embedded [THEN conjunct1, rule_format,
      OF marker_payload_hide C' P' scenario_eof scenario_name_bytes scenario_kept_clean c3']
  have v: "validate_pdf scenario_fs (ascii ''carrier.pdf'') = Inr True"
    by (rule validate_pdf_ok [OF C])
       (simp add: scenario_carrier_def ascii_bytes_def marker_eval)
  have m: "\<not> (py_in scenario_carrier MARKER \<and> py_in scenario_carrier MARKER_END)"
    by (simp add: scenario_carrier_def ascii_bytes_def marker_eval)
  note c = info_of_embedded [THEN conjunct2, rule_format, OF v C m]
  from a b c show ?thesis
    by (intro conjI) simp_all
qed

definition marked_carrier :: bytes where
  "marked_carrier =
     ascii_bytes ''%PDF-1.4'' @ newline @ ascii_bytes ''<<HIDDEN_DATA_END>>'' @ newline
     @ ascii_bytes ''%%EOF'' @ newline"

definition marked_carrier_fs :: filesystem where
  "marked_carrier_fs =
     \<lparr>files = [(ascii ''carrier.pdf'', marked_carrier),
               (ascii ''secret.txt'', ascii_bytes ''hello'')],
      dirs = []\<rparr>"

definition marked_carrier_stego :: bytes where
  "marked_carrier_stego =
     ascii_bytes ''%PDF-1.4'' @ newline @ ascii_bytes ''<<HIDDEN_DATA_END>>'' @ newline
     @ ascii_bytes ''%%EOF'' @ newline @ ascii_bytes ''<<HIDDEN_DATA_START>>''
     @ [10, 0, 0, 0] @ ascii_bytes ''secret.txt'' @ [5, 0, 0, 0] @ ascii_bytes ''hello''
     @ ascii_bytes ''<<HIDDEN_DATA_END>>'' @ newline"

definition marked_carrier_stego_fs :: filesystem where
  "marked_carrier_stego_fs =
     marked_carrier_fs\<lparr>files :=
       (ascii ''out.pdf'', marked_carrier_stego) # files marked_carrier_fs\<rparr>"

theorem info_of_embedded_counterexample:
  "hide_file marked_carrier_fs (ascii ''carrier.pdf'') (ascii ''secret.txt'') (ascii ''out.pdf'')
     = (True, marked_carrier_stego_fs)
   \<and> get_hidden_file_info marked_carrier_stego_fs (ascii ''out.pdf'') = None"
proof -
  have h: "hide_file_body marked_carrier_fs (ascii ''carrier.pdf'') (ascii ''secret.txt'')
      (ascii ''out.pdf'') = Inr marked_carrier_stego_fs"
    unfolding hide_file_body_Inr_iff
    by (simp add: marked_carrier_fs_def marked_carrier_stego_fs_def marked_carrier_stego_def
        marked_carrier_def fs_eval path_eval marker_eval utf8_encode_cp_def pack_u32_def)
  have r: "read_file marked_carrier_stego_fs (ascii ''out.pdf'') = Inr marked_carrier_stego"
    by (simp add: marked_carrier_stego_fs_def marked_carrier_fs_def fs_eval)
  have t: "take 5 marked_carrier_stego = pdf_header"
    by (simp add: marked_carrier_stego_def ascii_bytes_def marker_eval)
  have hd: "read_header marked_carrier_stego = Some (Inl StructError)"
    by (simp add: read_header_def marked_carrier_stego_def ascii_bytes_def marker_eval
        py_slice_def Let_def)
  from h have "hide_file marked_carrier_fs (ascii ''carrier.pdf'') (ascii ''secret.txt'')
      (ascii ''out.pdf'') = (True, marked_carrier_stego_fs)"
    by (simp add: hide_file_True_iff)
  moreover have "get_hidden_file_info marked_carrier_stego_fs (ascii ''out.pdf'') = None"
    by (simp add: get_hidden_file_info_header [OF r t] hd)
  ultimately show ?thesis
    by (rule conjI)
qed

end
